theory Spec2Isabelle
  imports Main "HOL-Library.Word" "HOL-Library.Signed_Division" "HOL-Library.Multiset"
begin

section \<open>Go values\<close>

text \<open>
  Go's \<open>int\<close> is modelled as a 64-bit machine word: \<open>+\<close> wraps, and the comparisons
  of the source are the signed ones (\<open>sint\<close>, \<open><s\<close>, \<open>\<le>s\<close>). A \<open>time.Time\<close> is an
  instant counted from the zero value of the type. The length of a slice is read as the
  mathematical integer \<open>int (length xs)\<close>: a Go slice never holds more than \<open>2^63 - 1\<close>
  elements, so \<open>len\<close> does not wrap.
\<close>

type_synonym go_int = "64 word"
type_synonym go_time = nat

definition zeroTime :: go_time where
  "zeroTime = 0"

text \<open>The run-time panics the modelled functions can raise.\<close>

datatype go_panic = IntnInvalidArgument | IndexOutOfRange

section \<open>Domain types\<close>

record ServiceEndpoint =
  URL :: string
  Priority :: go_int
  Weight :: go_int
  Timeout :: go_int
  Headers :: "string \<rightharpoonup> string"
  IsActive :: bool

record HealthCheckConfig =
  Enabled :: bool
  Path :: string
  Method :: string
  Interval :: go_int
  Timeout :: go_int
  FailThreshold :: go_int

record ServiceConfig =
  ID :: "8 word list"
  TenantID :: string
  ServiceName :: string
  PrimaryEndpoint :: ServiceEndpoint
  FallbackChain :: "ServiceEndpoint list"
  DefaultServiceURL :: string
  HealthCheck :: HealthCheckConfig
  LoadBalanceStrategy :: string
  IsActive :: bool
  Metadata :: "string \<rightharpoonup> string"
  CreatedAt :: go_time
  UpdatedAt :: go_time

text \<open>
  Modelled from the spec: the fields of \<open>ServiceStatus\<close>. The declaration of the struct
  in the domain package lists other names (\<open>LastCheckTime\<close>, \<open>ResponseTime\<close>,
  \<open>ErrorMessage\<close>); the registry and the gRPC facade read and write the fields
  below, which are those of the health record of the spec's data model.
\<close>

record ServiceStatus =
  TenantID :: string
  ServiceName :: string
  EndpointURL :: string
  IsHealthy :: bool
  LastChecked :: go_time
  LastSuccessful :: go_time
  LastFailure :: go_time
  ConsecutiveFails :: go_int
  LastError :: string

text \<open>
  Modelled from the spec: the fields of \<open>FallbackChainResult\<close>. As for
  \<open>ServiceStatus\<close>, the registry fills the fields below (resolved URL, default flag,
  chosen endpoint, attempted URLs, success flag, error text), not those of the
  declaration in the domain package. A nil \<open>UsedEndpoint\<close> is \<open>None\<close>.
\<close>

record FallbackChainResult =
  TenantID :: string
  ServiceName :: string
  AttemptedURLs :: "string list"
  AttemptedAt :: go_time
  ResolvedURL :: string
  UsedEndpoint :: "ServiceEndpoint option"
  IsDefault :: bool
  Success :: bool
  Error :: string

definition LoadBalanceRoundRobin :: string where
  "LoadBalanceRoundRobin = ''round-robin''"

definition LoadBalanceRandom :: string where
  "LoadBalanceRandom = ''random''"

definition LoadBalanceWeighted :: string where
  "LoadBalanceWeighted = ''weighted''"

definition LoadBalanceLeastConn :: string where
  "LoadBalanceLeastConn = ''least-conn''"

definition DefaultFailThreshold :: go_int where
  "DefaultFailThreshold = 3"

section \<open>The service registry\<close>

text \<open>
  The registry's two tables. The mutexes serialise the operations, so each operation is
  a function from the state before to the state after; the repository and the logger
  take no part in the operations modelled here. The health table holds pointers to
  records that only \<open>UpdateHealthStatus\<close> reaches, one per key, so the table is a
  map to the records themselves.
\<close>

record ServiceRegistry =
  healthStatus :: "string \<rightharpoonup> ServiceStatus"
  loadBalanceIdx :: "string \<rightharpoonup> go_int"

definition NewServiceRegistry :: ServiceRegistry where
  "NewServiceRegistry = \<lparr>healthStatus = Map.empty, loadBalanceIdx = Map.empty\<rparr>"

text \<open>\<open>fmt.Sprintf("%s:%s:%s", tenantID, serviceName, url)\<close>\<close>

definition healthKey :: "string \<Rightarrow> string \<Rightarrow> string \<Rightarrow> string" where
  "healthKey tenantID serviceName url = tenantID @ '':'' @ serviceName @ '':'' @ url"

text \<open>\<open>fmt.Sprintf("%s:%s", tenantID, serviceName)\<close>\<close>

definition lbKey :: "string \<Rightarrow> string \<Rightarrow> string" where
  "lbKey tenantID serviceName = tenantID @ '':'' @ serviceName"

subsection \<open>Health state tracker\<close>

text \<open>
  \<open>clock k\<close> is the value of the \<open>k\<close>-th read of \<open>time.Now()\<close> during the call.
\<close>

definition UpdateHealthStatus ::
  "ServiceRegistry \<Rightarrow> (nat \<Rightarrow> go_time) \<Rightarrow> string \<Rightarrow> string \<Rightarrow> string \<Rightarrow> bool \<Rightarrow> ServiceRegistry" where
  "UpdateHealthStatus s clock tenantID serviceName url healthy =
     (let key = healthKey tenantID serviceName url in
      case healthStatus s key of
        None \<Rightarrow>
          s\<lparr>healthStatus := (healthStatus s)(key \<mapsto>
              \<lparr>ServiceStatus.TenantID = tenantID,
               ServiceStatus.ServiceName = serviceName,
               EndpointURL = url,
               IsHealthy = healthy,
               LastChecked = clock 0,
               LastSuccessful = zeroTime,
               LastFailure = zeroTime,
               ConsecutiveFails = 0,
               LastError = []\<rparr>)\<rparr>
      | Some status \<Rightarrow>
          let status1 = status\<lparr>LastChecked := clock 0\<rparr>;
              status2 =
                (if healthy then
                   status1\<lparr>IsHealthy := True, ConsecutiveFails := 0, LastSuccessful := clock 1\<rparr>
                 else
                   let st = status1\<lparr>ConsecutiveFails := ConsecutiveFails status1 + 1,
                                     LastFailure := clock 1,
                                     LastError := ''health check failed''\<rparr>
                   in if 3 \<le>s ConsecutiveFails st then st\<lparr>IsHealthy := False\<rparr> else st)
          in s\<lparr>healthStatus := (healthStatus s)(key \<mapsto> status2)\<rparr>)"

definition isEndpointHealthy :: "ServiceRegistry \<Rightarrow> string \<Rightarrow> string \<Rightarrow> string \<Rightarrow> bool" where
  "isEndpointHealthy s tenantID serviceName url =
     (case healthStatus s (healthKey tenantID serviceName url) of
        None \<Rightarrow> True
      | Some status \<Rightarrow> IsHealthy status)"

definition GetHealthStatus ::
  "ServiceRegistry \<Rightarrow> (nat \<Rightarrow> go_time) \<Rightarrow> string \<Rightarrow> string \<Rightarrow> string \<Rightarrow> ServiceStatus" where
  "GetHealthStatus s clock tenantID serviceName url =
     (case healthStatus s (healthKey tenantID serviceName url) of
        None \<Rightarrow>
          \<lparr>ServiceStatus.TenantID = tenantID,
           ServiceStatus.ServiceName = serviceName,
           EndpointURL = url,
           IsHealthy = True,
           LastChecked = clock 0,
           LastSuccessful = zeroTime,
           LastFailure = zeroTime,
           ConsecutiveFails = 0,
           LastError = []\<rparr>
      | Some status \<Rightarrow> status)"

text \<open>
  A run of reports on one key, in order: each entry is the clock of the call and the
  reported outcome.
\<close>

fun reportAll ::
  "ServiceRegistry \<Rightarrow> string \<Rightarrow> string \<Rightarrow> string \<Rightarrow> ((nat \<Rightarrow> go_time) \<times> bool) list \<Rightarrow> ServiceRegistry" where
  "reportAll s tenantID serviceName url [] = s"
| "reportAll s tenantID serviceName url ((clock, healthy) # rest) =
     reportAll (UpdateHealthStatus s clock tenantID serviceName url healthy) tenantID serviceName url rest"

text \<open>A run of failure reports, one per clock.\<close>

definition failures :: "(nat \<Rightarrow> go_time) list \<Rightarrow> ((nat \<Rightarrow> go_time) \<times> bool) list" where
  "failures clocks = map (\<lambda>clock. (clock, False)) clocks"

section \<open>Configuration model\<close>

definition GetActiveEndpoints :: "ServiceConfig \<Rightarrow> ServiceEndpoint list" where
  "GetActiveEndpoints sc =
     (if ServiceEndpoint.IsActive (PrimaryEndpoint sc) then [PrimaryEndpoint sc] else [])
     @ filter ServiceEndpoint.IsActive (FallbackChain sc)"

text \<open>
  The two nested loops of \<open>GetEndpointByPriority\<close>: \<open>sortInner i j\<close> is the inner
  loop from the index \<open>j\<close> on, \<open>sortOuter i\<close> the outer loop from the index \<open>i\<close>
  on. The swap \<open>endpoints[i], endpoints[j] = endpoints[j], endpoints[i]\<close> reads both
  elements before it writes.
\<close>

function sortInner :: "nat \<Rightarrow> nat \<Rightarrow> ServiceEndpoint list \<Rightarrow> ServiceEndpoint list" where
  "sortInner i j endpoints =
     (if j < length endpoints then
        sortInner i (j + 1)
          (if Priority (endpoints ! j) <s Priority (endpoints ! i)
           then endpoints[i := endpoints ! j, j := endpoints ! i]
           else endpoints)
      else endpoints)"
  by pat_completeness auto
termination
  by (relation "measure (\<lambda>(i, j, endpoints). length endpoints - j)") auto

declare sortInner.simps [simp del]

function sortOuter :: "nat \<Rightarrow> ServiceEndpoint list \<Rightarrow> ServiceEndpoint list" where
  "sortOuter i endpoints =
     (if i < length endpoints then sortOuter (i + 1) (sortInner i (i + 1) endpoints)
      else endpoints)"
  by pat_completeness auto
termination
proof (relation "measure (\<lambda>(i, endpoints). length endpoints - i)")
  show "wf (measure (\<lambda>(i, endpoints). length endpoints - i))"
    by simp
next
  fix i :: nat and endpoints :: "ServiceEndpoint list"
  assume lt: "i < length endpoints"
  have len: "length (sortInner a j xs) = length xs" for a j xs
  proof (induction a j xs rule: sortInner.induct)
    case (1 a j xs)
    show ?case
    proof (cases "j < length xs")
      case True
      with "1.IH" show ?thesis
        by (subst sortInner.simps) simp
    next
      case False
      then show ?thesis
        by (subst sortInner.simps) simp
    qed
  qed
  from lt show "((i + 1, sortInner i (i + 1) endpoints), (i, endpoints))
      \<in> measure (\<lambda>(i, endpoints). length endpoints - i)"
    by (simp add: len)
qed

declare sortOuter.simps [simp del]

definition GetEndpointByPriority :: "ServiceConfig \<Rightarrow> ServiceEndpoint list" where
  "GetEndpointByPriority sc = sortOuter 0 (GetActiveEndpoints sc)"

text \<open>The order the sort is meant to establish: ascending priority, as signed integers.\<close>

definition byPriority :: "ServiceEndpoint \<Rightarrow> ServiceEndpoint \<Rightarrow> bool" where
  "byPriority a b \<longleftrightarrow> Priority a \<le>s Priority b"

section \<open>Endpoint resolver\<close>

text \<open>
  An index expression \<open>xs[i]\<close> panics outside the slice.
\<close>

definition go_index :: "'a list \<Rightarrow> int \<Rightarrow> go_panic + 'a" where
  "go_index xs i = (if 0 \<le> i \<and> i < int (length xs) then Inr (xs ! nat i) else Inl IndexOutOfRange)"

text \<open>
  \<open>rand.Intn(n)\<close> of the standard library panics when \<open>n \<le> 0\<close> and otherwise
  returns a pseudo-random number of \<open>[0, n)\<close>. The state of the generator is the
  parameter \<open>seed\<close>, and the draw is \<open>seed mod n\<close>: every number of \<open>[0, n)\<close> is
  the draw of some seed, and no other number is.
\<close>

definition rand_Intn :: "nat \<Rightarrow> int \<Rightarrow> go_panic + int" where
  "rand_Intn seed n = (if n \<le> 0 then Inl IntnInvalidArgument else Inr (int seed mod n))"

text \<open>\<open>s.loadBalanceIdx[key]\<close>: a key that is not in the map reads as zero.\<close>

definition lbCursor :: "ServiceRegistry \<Rightarrow> string \<Rightarrow> go_int" where
  "lbCursor s key = (case loadBalanceIdx s key of None \<Rightarrow> 0 | Some idx \<Rightarrow> idx)"

text \<open>
  Go's \<open>%\<close> truncates towards zero (\<open>smod\<close>), and \<open>idx + 1\<close> wraps. The results pair
  the returned URL and endpoint (nil is \<open>None\<close>) with the state after the call. The
  candidates are passed as pointers to endpoints that nothing writes, so a pointer is
  the endpoint it points to.
\<close>

definition roundRobinSelect ::
  "ServiceRegistry \<Rightarrow> string \<Rightarrow> string \<Rightarrow> ServiceEndpoint list
     \<Rightarrow> go_panic + ((string \<times> ServiceEndpoint option) \<times> ServiceRegistry)" where
  "roundRobinSelect s tenantID serviceName endpoints =
     (if length endpoints = 0 then Inr (([], None), s)
      else
        let key = lbKey tenantID serviceName;
            idx = lbCursor s key
        in case go_index endpoints (sint idx smod int (length endpoints)) of
             Inl e \<Rightarrow> Inl e
           | Inr endpoint \<Rightarrow>
               Inr ((URL endpoint, Some endpoint),
                    s\<lparr>loadBalanceIdx := (loadBalanceIdx s)(key \<mapsto>
                         word_of_int (sint (idx + 1) smod int (length endpoints)))\<rparr>))"

definition randomSelect ::
  "nat \<Rightarrow> ServiceEndpoint list \<Rightarrow> go_panic + (string \<times> ServiceEndpoint option)" where
  "randomSelect seed endpoints =
     (if length endpoints = 0 then Inr ([], None)
      else
        case rand_Intn seed (int (length endpoints)) of
          Inl e \<Rightarrow> Inl e
        | Inr idx \<Rightarrow>
            (case go_index endpoints idx of
               Inl e \<Rightarrow> Inl e
             | Inr endpoint \<Rightarrow> Inr (URL endpoint, Some endpoint)))"

text \<open>The first loop of \<open>weightedSelect\<close>: the sum of the weights, in machine arithmetic.\<close>

definition totalWeight :: "ServiceEndpoint list \<Rightarrow> go_int" where
  "totalWeight endpoints = fold (\<lambda>ep total. total + Weight ep) endpoints 0"

text \<open>
  The second loop of \<open>weightedSelect\<close>, from the running sum \<open>cumulative\<close> on:
  the endpoint the loop returns, or \<open>None\<close> when the loop ends without returning.
\<close>

fun weightedWalk :: "int \<Rightarrow> go_int \<Rightarrow> ServiceEndpoint list \<Rightarrow> ServiceEndpoint option" where
  "weightedWalk r cumulative [] = None"
| "weightedWalk r cumulative (ep # rest) =
     (let cumulative' = cumulative + Weight ep
      in if r < sint cumulative' then Some ep else weightedWalk r cumulative' rest)"

definition weightedSelect ::
  "nat \<Rightarrow> ServiceEndpoint list \<Rightarrow> go_panic + (string \<times> ServiceEndpoint option)" where
  "weightedSelect seed endpoints =
     (if length endpoints = 0 then Inr ([], None)
      else if totalWeight endpoints = 0 then randomSelect seed endpoints
      else
        case rand_Intn seed (sint (totalWeight endpoints)) of
          Inl e \<Rightarrow> Inl e
        | Inr r \<Rightarrow>
            (case weightedWalk r 0 endpoints of
               Some ep \<Rightarrow> Inr (URL ep, Some ep)
             | None \<Rightarrow>
                 (case go_index endpoints 0 of
                    Inl e \<Rightarrow> Inl e
                  | Inr ep \<Rightarrow> Inr (URL ep, Some ep))))"

text \<open>A selection that leaves the registry as it is.\<close>

definition keepState ::
  "ServiceRegistry \<Rightarrow> go_panic + (string \<times> ServiceEndpoint option)
     \<Rightarrow> go_panic + ((string \<times> ServiceEndpoint option) \<times> ServiceRegistry)" where
  "keepState s r = (case r of Inl e \<Rightarrow> Inl e | Inr x \<Rightarrow> Inr (x, s))"

definition selectEndpoint ::
  "ServiceRegistry \<Rightarrow> nat \<Rightarrow> ServiceConfig
     \<Rightarrow> go_panic + ((string \<times> ServiceEndpoint option) \<times> ServiceRegistry)" where
  "selectEndpoint s seed config =
     (let endpoints = GetActiveEndpoints config in
      if length endpoints = 0 then
        (if URL (PrimaryEndpoint config) \<noteq> []
         then Inr ((URL (PrimaryEndpoint config), Some (PrimaryEndpoint config)), s)
         else Inr ((DefaultServiceURL config, None), s))
      else if LoadBalanceStrategy config = LoadBalanceRoundRobin then
        roundRobinSelect s (ServiceConfig.TenantID config) (ServiceConfig.ServiceName config) endpoints
      else if LoadBalanceStrategy config = LoadBalanceRandom then
        keepState s (randomSelect seed endpoints)
      else if LoadBalanceStrategy config = LoadBalanceWeighted then
        keepState s (weightedSelect seed endpoints)
      else if LoadBalanceStrategy config = LoadBalanceLeastConn then
        roundRobinSelect s (ServiceConfig.TenantID config) (ServiceConfig.ServiceName config) endpoints
      else
        roundRobinSelect s (ServiceConfig.TenantID config) (ServiceConfig.ServiceName config) endpoints)"

text \<open>
  The loop of \<open>ResolveFallbackChain\<close> over the fallback chain. The flag tells whether
  the loop returned from the function (with the result given) or ran to its end (with
  the trace so far).
\<close>

fun walkFallbackChain ::
  "ServiceRegistry \<Rightarrow> ServiceConfig \<Rightarrow> FallbackChainResult \<Rightarrow> ServiceEndpoint list
     \<Rightarrow> bool \<times> FallbackChainResult" where
  "walkFallbackChain s config result [] = (False, result)"
| "walkFallbackChain s config result (endpoint # rest) =
     (if ServiceEndpoint.IsActive endpoint
         \<and> isEndpointHealthy s (ServiceConfig.TenantID config) (ServiceConfig.ServiceName config)
             (URL endpoint)
      then (True, result\<lparr>ResolvedURL := URL endpoint,
                         UsedEndpoint := Some endpoint,
                         IsDefault := False,
                         Success := True\<rparr>)
      else walkFallbackChain s config
             (result\<lparr>AttemptedURLs := AttemptedURLs result @ [URL endpoint]\<rparr>) rest)"

text \<open>The result is the trace and the returned error (nil is \<open>None\<close>).\<close>

definition ResolveFallbackChain ::
  "ServiceRegistry \<Rightarrow> (nat \<Rightarrow> go_time) \<Rightarrow> ServiceConfig \<Rightarrow> FallbackChainResult \<times> string option" where
  "ResolveFallbackChain s clock config =
     (let result = \<lparr>FallbackChainResult.TenantID = ServiceConfig.TenantID config,
                    FallbackChainResult.ServiceName = ServiceConfig.ServiceName config,
                    AttemptedURLs = [],
                    AttemptedAt = clock 0,
                    ResolvedURL = [],
                    UsedEndpoint = None,
                    IsDefault = False,
                    Success = False,
                    Error = []\<rparr>
      in
      if ServiceEndpoint.IsActive (PrimaryEndpoint config)
         \<and> isEndpointHealthy s (ServiceConfig.TenantID config) (ServiceConfig.ServiceName config)
             (URL (PrimaryEndpoint config))
      then (result\<lparr>ResolvedURL := URL (PrimaryEndpoint config),
                   UsedEndpoint := Some (PrimaryEndpoint config),
                   IsDefault := False,
                   Success := True\<rparr>, None)
      else
        case walkFallbackChain s config
               (result\<lparr>AttemptedURLs := AttemptedURLs result @ [URL (PrimaryEndpoint config)]\<rparr>)
               (FallbackChain config) of
          (True, found) \<Rightarrow> (found, None)
        | (False, trace) \<Rightarrow>
            if DefaultServiceURL config \<noteq> [] then
              (trace\<lparr>ResolvedURL := DefaultServiceURL config,
                     IsDefault := True,
                     Success := True\<rparr>, None)
            else
              (trace\<lparr>Success := False,
                     Error := ''all endpoints in fallback chain are unhealthy''\<rparr>,
               Some ''no healthy endpoints available''))"

text \<open>Consecutive calls of \<open>roundRobinSelect\<close> with one candidate list: the results in order.\<close>

fun roundRobinCalls ::
  "ServiceRegistry \<Rightarrow> string \<Rightarrow> string \<Rightarrow> ServiceEndpoint list \<Rightarrow> nat
     \<Rightarrow> go_panic + ((string \<times> ServiceEndpoint option) list \<times> ServiceRegistry)" where
  "roundRobinCalls s tenantID serviceName endpoints 0 = Inr ([], s)"
| "roundRobinCalls s tenantID serviceName endpoints (Suc n) =
     (case roundRobinSelect s tenantID serviceName endpoints of
        Inl e \<Rightarrow> Inl e
      | Inr (r, s') \<Rightarrow>
          (case roundRobinCalls s' tenantID serviceName endpoints n of
             Inl e \<Rightarrow> Inl e
           | Inr (rs, s'') \<Rightarrow> Inr (r # rs, s'')))"

text \<open>Consecutive calls of \<open>selectEndpoint\<close> with one config, one seed per call.\<close>

fun selectEndpointCalls ::
  "ServiceRegistry \<Rightarrow> nat list \<Rightarrow> ServiceConfig
     \<Rightarrow> go_panic + ((string \<times> ServiceEndpoint option) list \<times> ServiceRegistry)" where
  "selectEndpointCalls s [] config = Inr ([], s)"
| "selectEndpointCalls s (seed # seeds) config =
     (case selectEndpoint s seed config of
        Inl e \<Rightarrow> Inl e
      | Inr (r, s') \<Rightarrow>
          (case selectEndpointCalls s' seeds config of
             Inl e \<Rightarrow> Inl e
           | Inr (rs, s'') \<Rightarrow> Inr (r # rs, s'')))"

section \<open>Example inputs\<close>

definition exampleClock :: "nat \<Rightarrow> go_time" where
  "exampleClock k = 1000 + k"

definition endpointA :: ServiceEndpoint where
  "endpointA = \<lparr>URL = ''http://a.internal:8080'', Priority = 0, Weight = 0,
                 ServiceEndpoint.Timeout = 5, Headers = Map.empty,
                 ServiceEndpoint.IsActive = False\<rparr>"

definition endpointB :: ServiceEndpoint where
  "endpointB = \<lparr>URL = ''http://b.internal:8080'', Priority = 1, Weight = 0,
                 ServiceEndpoint.Timeout = 5, Headers = Map.empty,
                 ServiceEndpoint.IsActive = True\<rparr>"

definition exampleHealthCheck :: HealthCheckConfig where
  "exampleHealthCheck = \<lparr>Enabled = True, Path = ''/health'', Method = ''GET'', Interval = 30,
                          HealthCheckConfig.Timeout = 5, FailThreshold = 3\<rparr>"

text \<open>The config \<open>{primary: A (inactive), fallback: [B (active)], default: D}\<close>.\<close>

definition scenarioConfig :: ServiceConfig where
  "scenarioConfig =
     \<lparr>ID = [], ServiceConfig.TenantID = ''tenant-1'', ServiceConfig.ServiceName = ''auth'',
      PrimaryEndpoint = endpointA, FallbackChain = [endpointB],
      DefaultServiceURL = ''http://default.internal:8080'',
      HealthCheck = exampleHealthCheck, LoadBalanceStrategy = ''bogus'',
      ServiceConfig.IsActive = True, Metadata = Map.empty, CreatedAt = 0, UpdatedAt = 0\<rparr>"

text \<open>The same service with a fail threshold of 5 configured.\<close>

definition thresholdFiveConfig :: ServiceConfig where
  "thresholdFiveConfig =
     scenarioConfig\<lparr>HealthCheck := exampleHealthCheck\<lparr>FailThreshold := 5\<rparr>\<rparr>"

text \<open>An empty fallback chain, an inactive primary and no default URL.\<close>

definition noDefaultConfig :: ServiceConfig where
  "noDefaultConfig = scenarioConfig\<lparr>FallbackChain := [], DefaultServiceURL := []\<rparr>"

text \<open>Three active endpoints; the first two share the priority 2.\<close>

definition endpointP :: ServiceEndpoint where
  "endpointP = \<lparr>URL = ''http://p.internal:8080'', Priority = 2, Weight = 1,
                 ServiceEndpoint.Timeout = 5, Headers = Map.empty,
                 ServiceEndpoint.IsActive = True\<rparr>"

definition endpointQ :: ServiceEndpoint where
  "endpointQ = \<lparr>URL = ''http://q.internal:8080'', Priority = 2, Weight = 2,
                 ServiceEndpoint.Timeout = 5, Headers = Map.empty,
                 ServiceEndpoint.IsActive = True\<rparr>"

definition endpointR :: ServiceEndpoint where
  "endpointR = \<lparr>URL = ''http://r.internal:8080'', Priority = 1, Weight = 3,
                 ServiceEndpoint.Timeout = 5, Headers = Map.empty,
                 ServiceEndpoint.IsActive = True\<rparr>"

definition priorityConfig :: ServiceConfig where
  "priorityConfig =
     scenarioConfig\<lparr>PrimaryEndpoint := endpointP, FallbackChain := [endpointQ, endpointR]\<rparr>"

text \<open>The registry after one success report on B of \<open>scenarioConfig\<close>, and the record it holds.\<close>

definition reportedHealthyRegistry :: ServiceRegistry where
  "reportedHealthyRegistry =
     UpdateHealthStatus NewServiceRegistry exampleClock
       ''tenant-1'' ''auth'' ''http://b.internal:8080'' True"

definition reportedHealthyStatus :: ServiceStatus where
  "reportedHealthyStatus =
     \<lparr>ServiceStatus.TenantID = ''tenant-1'', ServiceStatus.ServiceName = ''auth'',
      EndpointURL = ''http://b.internal:8080'', IsHealthy = True, LastChecked = 1000,
      LastSuccessful = 0, LastFailure = 0, ConsecutiveFails = 0, LastError = []\<rparr>"

text \<open>An active primary, an empty fallback chain and a default URL.\<close>

definition primaryOnlyConfig :: ServiceConfig where
  "primaryOnlyConfig = scenarioConfig\<lparr>PrimaryEndpoint := endpointB, FallbackChain := []\<rparr>"

section \<open>Health state tracker: properties\<close>


lemma UpdateHealthStatus_success:
  "\<exists>st. healthStatus (UpdateHealthStatus s clock t sv u True) (healthKey t sv u) = Some st
        \<and> IsHealthy st \<and> ConsecutiveFails st = 0"
  by (cases "healthStatus s (healthKey t sv u)") (simp_all add: UpdateHealthStatus_def Let_def)

lemma UpdateHealthStatus_failure_stays_unhealthy:
  assumes "healthStatus s (healthKey t sv u) = Some st" and "\<not> IsHealthy st"
  shows "\<exists>st'. healthStatus (UpdateHealthStatus s clock t sv u False) (healthKey t sv u) = Some st'
           \<and> \<not> IsHealthy st'"
  using assms by (simp add: UpdateHealthStatus_def Let_def)

lemma reportAll_failures_stay_unhealthy:
  assumes "healthStatus s (healthKey t sv u) = Some st" and "\<not> IsHealthy st"
  shows "\<exists>st'. healthStatus (reportAll s t sv u (failures clocks)) (healthKey t sv u) = Some st'
           \<and> \<not> IsHealthy st'"
  using assms
proof (induction clocks arbitrary: s st)
  case Nil
  then show ?case by (simp add: failures_def)
next
  case (Cons c cs)
  from UpdateHealthStatus_failure_stays_unhealthy [OF Cons.prems]
  obtain st1 where st1: "healthStatus (UpdateHealthStatus s c t sv u False) (healthKey t sv u) = Some st1"
    "\<not> IsHealthy st1"
    by blast
  from Cons.IH [OF st1] show ?case
    by (simp add: failures_def)
qed

lemma UpdateHealthStatus_failure_present:
  assumes "healthStatus s (healthKey t sv u) = Some st"
  shows "healthStatus (UpdateHealthStatus s clock t sv u False) (healthKey t sv u) =
           Some (st\<lparr>LastChecked := clock 0,
                    ConsecutiveFails := ConsecutiveFails st + 1,
                    LastFailure := clock 1,
                    LastError := ''health check failed'',
                    IsHealthy := IsHealthy st \<and> \<not> 3 \<le>s ConsecutiveFails st + 1\<rparr>)"
  using assms by (simp add: UpdateHealthStatus_def Let_def)

lemma isEndpointHealthy_present:
  "healthStatus s (healthKey t sv u) = Some st \<Longrightarrow> isEndpointHealthy s t sv u = IsHealthy st"
  by (simp add: isEndpointHealthy_def)

lemma reportAll_failures_Cons:
  "reportAll s t sv u (failures (c # cs)) =
     reportAll (UpdateHealthStatus s c t sv u False) t sv u (failures cs)"
  by (simp add: failures_def)

lemma reportAll_failures_Nil:
  "reportAll s t sv u (failures []) = s"
  by (simp add: failures_def)

lemma three_sle:
  "\<not> (3::go_int) \<le>s 0 + 1" "\<not> (3::go_int) \<le>s 0 + 1 + 1" "(3::go_int) \<le>s 0 + 1 + 1 + 1"
  by (simp_all add: word_sle_eq)

lemma reportedHealthyRegistry_record:
  "healthStatus reportedHealthyRegistry (healthKey ''tenant-1'' ''auth'' ''http://b.internal:8080'')
     = Some reportedHealthyStatus"
  by (simp add: reportedHealthyRegistry_def reportedHealthyStatus_def NewServiceRegistry_def
      UpdateHealthStatus_def exampleClock_def zeroTime_def)

text \<open>
  C8. A key without a stored record reads as healthy: \<open>isEndpointHealthy\<close> returns
  true, and \<open>GetHealthStatus\<close> returns a record made up on the spot, healthy and with
  no consecutive failures, never a missing result. Both are total functions without an
  error result: neither can fail.
\<close>

theorem absent_record_reads_healthy:
  assumes "healthStatus s (healthKey t sv u) = None"
  shows "isEndpointHealthy s t sv u
       \<and> GetHealthStatus s clock t sv u =
           \<lparr>ServiceStatus.TenantID = t, ServiceStatus.ServiceName = sv, EndpointURL = u,
            IsHealthy = True, LastChecked = clock 0, LastSuccessful = zeroTime,
            LastFailure = zeroTime, ConsecutiveFails = 0, LastError = []\<rparr>
       \<and> IsHealthy (GetHealthStatus s clock t sv u)
       \<and> ConsecutiveFails (GetHealthStatus s clock t sv u) = 0"
  using assms by (simp add: isEndpointHealthy_def GetHealthStatus_def)

theorem absent_record_reads_healthy_witness:
  "healthStatus NewServiceRegistry (healthKey ''tenant-1'' ''auth'' ''http://b.internal:8080'') = None
   \<and> isEndpointHealthy NewServiceRegistry ''tenant-1'' ''auth'' ''http://b.internal:8080''
   \<and> IsHealthy (GetHealthStatus NewServiceRegistry exampleClock
         ''tenant-1'' ''auth'' ''http://b.internal:8080'')
   \<and> ConsecutiveFails (GetHealthStatus NewServiceRegistry exampleClock
         ''tenant-1'' ''auth'' ''http://b.internal:8080'') = 0"
proof -
  have h: "healthStatus NewServiceRegistry
             (healthKey ''tenant-1'' ''auth'' ''http://b.internal:8080'') = None"
    by (simp add: NewServiceRegistry_def)
  from absent_record_reads_healthy [OF h, of exampleClock] h show ?thesis
    by simp
qed

text \<open>
  C9. Whatever reports came before on a key (any state of the registry, any run of
  reports), one success report leaves the key with a record that is healthy and has
  \<open>ConsecutiveFails = 0\<close>.
\<close>

theorem success_report_resets:
  "\<exists>st. healthStatus (UpdateHealthStatus (reportAll s t sv u reports) clock t sv u True)
            (healthKey t sv u) = Some st
        \<and> IsHealthy st \<and> ConsecutiveFails st = 0
        \<and> isEndpointHealthy
            (UpdateHealthStatus (reportAll s t sv u reports) clock t sv u True) t sv u"
  using UpdateHealthStatus_success [of "reportAll s t sv u reports" clock t sv u]
  by (auto simp: isEndpointHealthy_def)

theorem success_report_resets_witness:
  "\<exists>st. healthStatus
           (UpdateHealthStatus
              (reportAll NewServiceRegistry ''tenant-1'' ''auth'' ''http://b.internal:8080''
                 (failures [exampleClock, exampleClock, exampleClock, exampleClock]))
              exampleClock ''tenant-1'' ''auth'' ''http://b.internal:8080'' True)
           (healthKey ''tenant-1'' ''auth'' ''http://b.internal:8080'') = Some st
        \<and> IsHealthy st \<and> ConsecutiveFails st = 0
        \<and> isEndpointHealthy
            (UpdateHealthStatus
              (reportAll NewServiceRegistry ''tenant-1'' ''auth'' ''http://b.internal:8080''
                 (failures [exampleClock, exampleClock, exampleClock, exampleClock]))
              exampleClock ''tenant-1'' ''auth'' ''http://b.internal:8080'' True)
            ''tenant-1'' ''auth'' ''http://b.internal:8080''"
  by (rule success_report_resets)

text \<open>
  C10. The first report on a key without a record creates the record and returns: the
  record takes the reported outcome as \<open>IsHealthy\<close>, has \<open>ConsecutiveFails = 0\<close>,
  is stamped in \<open>LastChecked\<close> only (\<open>LastSuccessful\<close>, \<open>LastFailure\<close> and
  \<open>LastError\<close> keep their zero values), and nothing else in the registry changes. So
  one failure report on such a key gives an unhealthy record with no consecutive failures.
\<close>

theorem first_report_creates_record:
  assumes "healthStatus s (healthKey t sv u) = None"
  shows "UpdateHealthStatus s clock t sv u healthy =
           s\<lparr>healthStatus := (healthStatus s)(healthKey t sv u \<mapsto>
               \<lparr>ServiceStatus.TenantID = t, ServiceStatus.ServiceName = sv, EndpointURL = u,
                IsHealthy = healthy, LastChecked = clock 0, LastSuccessful = zeroTime,
                LastFailure = zeroTime, ConsecutiveFails = 0, LastError = []\<rparr>)\<rparr>
       \<and> (\<exists>st. healthStatus (UpdateHealthStatus s clock t sv u False) (healthKey t sv u) = Some st
              \<and> \<not> IsHealthy st \<and> ConsecutiveFails st = 0)
       \<and> \<not> isEndpointHealthy (UpdateHealthStatus s clock t sv u False) t sv u"
  using assms by (simp add: UpdateHealthStatus_def isEndpointHealthy_def)

theorem first_report_creates_record_witness:
  "healthStatus NewServiceRegistry (healthKey ''tenant-1'' ''auth'' ''http://b.internal:8080'') = None
   \<and> UpdateHealthStatus NewServiceRegistry exampleClock
         ''tenant-1'' ''auth'' ''http://b.internal:8080'' True = reportedHealthyRegistry
   \<and> healthStatus reportedHealthyRegistry
         (healthKey ''tenant-1'' ''auth'' ''http://b.internal:8080'') = Some reportedHealthyStatus
   \<and> \<not> isEndpointHealthy
         (UpdateHealthStatus NewServiceRegistry exampleClock
            ''tenant-1'' ''auth'' ''http://b.internal:8080'' False)
         ''tenant-1'' ''auth'' ''http://b.internal:8080''"
proof -
  have h: "healthStatus NewServiceRegistry
             (healthKey ''tenant-1'' ''auth'' ''http://b.internal:8080'') = None"
    by (simp add: NewServiceRegistry_def)
  from first_report_creates_record [OF h, of exampleClock True] h show ?thesis
    by (simp add: reportedHealthyRegistry_def reportedHealthyStatus_def exampleClock_def
        zeroTime_def)
qed

text \<open>
  The update branch of \<open>UpdateHealthStatus\<close> compares \<open>ConsecutiveFails\<close> with the
  literal 3. On a key whose record is healthy with no consecutive failures (as a success
  report leaves it), a run of failure reports leaves the endpoint healthy exactly while
  it is shorter than 3, and further failures keep it unhealthy.
\<close>

lemma UpdateHealthStatus_update_branch_threshold:
  assumes "healthStatus s (healthKey t sv u) = Some st"
    and "IsHealthy st" and "ConsecutiveFails st = 0"
  shows "isEndpointHealthy (reportAll s t sv u (failures clocks)) t sv u \<longleftrightarrow> length clocks < 3"
proof -
  let ?k = "healthKey t sv u"
  consider "clocks = []" | a where "clocks = [a]" | a b where "clocks = [a, b]"
    | a b c rest where "clocks = a # b # c # rest"
    by (cases clocks rule: list.exhaust; simp; metis list.exhaust)
  then show ?thesis
  proof cases
    case 1
    with assms show ?thesis
      by (simp add: reportAll_failures_Nil isEndpointHealthy_present)
  next
    case 2
    with assms show ?thesis
      by (simp add: reportAll_failures_Cons reportAll_failures_Nil
          isEndpointHealthy_present UpdateHealthStatus_failure_present three_sle [simplified])
  next
    case 3
    with assms show ?thesis
      by (simp add: reportAll_failures_Cons reportAll_failures_Nil
          isEndpointHealthy_present UpdateHealthStatus_failure_present three_sle [simplified])
  next
    case 4
    let ?s3 = "UpdateHealthStatus (UpdateHealthStatus (UpdateHealthStatus s a t sv u False)
                 b t sv u False) c t sv u False"
    from assms have "\<exists>st3. healthStatus ?s3 ?k = Some st3 \<and> \<not> IsHealthy st3"
      by (simp add: UpdateHealthStatus_failure_present three_sle [simplified])
    then obtain st3 where st3: "healthStatus ?s3 ?k = Some st3" "\<not> IsHealthy st3"
      by blast
    from reportAll_failures_stay_unhealthy [OF st3, of rest]
    show ?thesis
      using 4 by (auto simp: reportAll_failures_Cons isEndpointHealthy_present)
  qed
qed

lemma reportedHealthyRegistry_third_failure_flips:
  "healthStatus reportedHealthyRegistry (healthKey ''tenant-1'' ''auth'' ''http://b.internal:8080'')
     = Some reportedHealthyStatus
   \<and> IsHealthy reportedHealthyStatus \<and> ConsecutiveFails reportedHealthyStatus = 0
   \<and> isEndpointHealthy
       (reportAll reportedHealthyRegistry ''tenant-1'' ''auth'' ''http://b.internal:8080''
          (failures [exampleClock, exampleClock]))
       ''tenant-1'' ''auth'' ''http://b.internal:8080''
   \<and> \<not> isEndpointHealthy
       (reportAll reportedHealthyRegistry ''tenant-1'' ''auth'' ''http://b.internal:8080''
          (failures [exampleClock, exampleClock, exampleClock]))
       ''tenant-1'' ''auth'' ''http://b.internal:8080''"
proof -
  have h: "IsHealthy reportedHealthyStatus" "ConsecutiveFails reportedHealthyStatus = 0"
    by (simp_all add: reportedHealthyStatus_def)
  from UpdateHealthStatus_update_branch_threshold [OF reportedHealthyRegistry_record h,
      of "[exampleClock, exampleClock]"]
    UpdateHealthStatus_update_branch_threshold [OF reportedHealthyRegistry_record h,
      of "[exampleClock, exampleClock, exampleClock]"]
    reportedHealthyRegistry_record h
  show ?thesis
    by simp
qed

text \<open>
  C1. The claim: on every key, a run of \<open>failThreshold - 1\<close> consecutive failure
  reports leaves the endpoint healthy and the \<open>failThreshold\<close>-th flips it, with
  \<open>failThreshold\<close> the value configured in the service's \<open>HealthCheckConfig\<close>.
  The code does otherwise at two inputs. With a fail threshold of 5 configured and a
  record that a success report has just reset, two failures leave the endpoint healthy
  and the third already flips it, so the 4 failures of a run of length
  \<open>failThreshold - 1\<close> leave it unhealthy: the comparison is with the literal 3, not
  with the configured value. With the default threshold of 3 and a key never seen
  before, the creation branch stores the first failure as \<open>IsHealthy = False\<close>, so
  one failure, and the 2 failures of a run of length \<open>failThreshold - 1\<close>, leave the
  endpoint unhealthy, where the update branch would have kept it healthy.
\<close>

theorem UpdateHealthStatus_threshold_failing_inputs:
  "FailThreshold (HealthCheck thresholdFiveConfig) = 5
   \<and> \<not> isEndpointHealthy
        (reportAll reportedHealthyRegistry ''tenant-1'' ''auth'' ''http://b.internal:8080''
           (failures (replicate (unat (FailThreshold (HealthCheck thresholdFiveConfig)) - 1)
              exampleClock)))
        ''tenant-1'' ''auth'' ''http://b.internal:8080''
   \<and> FailThreshold (HealthCheck scenarioConfig) = 3
   \<and> \<not> isEndpointHealthy
        (reportAll NewServiceRegistry ''tenant-1'' ''auth'' ''http://b.internal:8080''
           (failures (replicate (unat (FailThreshold (HealthCheck scenarioConfig)) - 1)
              exampleClock)))
        ''tenant-1'' ''auth'' ''http://b.internal:8080''
   \<and> isEndpointHealthy
        (reportAll reportedHealthyRegistry ''tenant-1'' ''auth'' ''http://b.internal:8080''
           (failures [exampleClock, exampleClock]))
        ''tenant-1'' ''auth'' ''http://b.internal:8080''
   \<and> \<not> isEndpointHealthy
        (reportAll reportedHealthyRegistry ''tenant-1'' ''auth'' ''http://b.internal:8080''
           (failures [exampleClock, exampleClock, exampleClock]))
        ''tenant-1'' ''auth'' ''http://b.internal:8080''
   \<and> \<not> isEndpointHealthy
        (reportAll NewServiceRegistry ''tenant-1'' ''auth'' ''http://b.internal:8080''
           (failures [exampleClock]))
        ''tenant-1'' ''auth'' ''http://b.internal:8080''"
proof -
  have five: "FailThreshold (HealthCheck thresholdFiveConfig) = 5"
    by (simp add: thresholdFiveConfig_def scenarioConfig_def exampleHealthCheck_def)
  have three: "FailThreshold (HealthCheck scenarioConfig) = 3"
    by (simp add: scenarioConfig_def exampleHealthCheck_def)
  have n4: "unat (5::go_int) - 1 = Suc (Suc (Suc (Suc 0)))"
    by simp
  have n2: "unat (3::go_int) - 1 = Suc (Suc 0)"
    by simp
  show ?thesis
    unfolding five three n4 n2
    by (simp add: reportedHealthyRegistry_def NewServiceRegistry_def failures_def
        UpdateHealthStatus_def isEndpointHealthy_def healthKey_def Let_def word_sle_eq)
qed

section \<open>Endpoint resolver: the health-aware walk\<close>


lemma ResolveFallbackChain_empty_chain:
  assumes "FallbackChain config = []"
  shows "ResolveFallbackChain s clock config =
     (if ServiceEndpoint.IsActive (PrimaryEndpoint config)
          \<and> isEndpointHealthy s (ServiceConfig.TenantID config) (ServiceConfig.ServiceName config)
               (URL (PrimaryEndpoint config))
      then (\<lparr>FallbackChainResult.TenantID = ServiceConfig.TenantID config,
             FallbackChainResult.ServiceName = ServiceConfig.ServiceName config,
             AttemptedURLs = [], AttemptedAt = clock 0,
             ResolvedURL = URL (PrimaryEndpoint config),
             UsedEndpoint = Some (PrimaryEndpoint config),
             IsDefault = False, Success = True, Error = []\<rparr>, None)
      else if DefaultServiceURL config \<noteq> []
      then (\<lparr>FallbackChainResult.TenantID = ServiceConfig.TenantID config,
             FallbackChainResult.ServiceName = ServiceConfig.ServiceName config,
             AttemptedURLs = [URL (PrimaryEndpoint config)], AttemptedAt = clock 0,
             ResolvedURL = DefaultServiceURL config,
             UsedEndpoint = None,
             IsDefault = True, Success = True, Error = []\<rparr>, None)
      else (\<lparr>FallbackChainResult.TenantID = ServiceConfig.TenantID config,
             FallbackChainResult.ServiceName = ServiceConfig.ServiceName config,
             AttemptedURLs = [URL (PrimaryEndpoint config)], AttemptedAt = clock 0,
             ResolvedURL = [],
             UsedEndpoint = None,
             IsDefault = False, Success = False,
             Error = ''all endpoints in fallback chain are unhealthy''\<rparr>,
            Some ''no healthy endpoints available''))"
  using assms by (simp add: ResolveFallbackChain_def Let_def)

text \<open>
  C7, as the code has it. With an empty fallback chain, \<open>ResolveFallbackChain\<close>
  returns the primary endpoint if and only if the primary is active and healthy in the
  health table. Otherwise it records the primary's URL as attempted and falls through
  to \<open>DefaultServiceURL\<close>, returned with \<open>IsDefault = True\<close>, when that URL is
  not empty; when it is empty the call fails: \<open>Success = False\<close>, no resolved URL,
  and the error "no healthy endpoints available".
\<close>

theorem ResolveFallbackChain_primary_or_default:
  assumes "FallbackChain config = []"
  shows "(UsedEndpoint (fst (ResolveFallbackChain s clock config)) = Some (PrimaryEndpoint config)
          \<longleftrightarrow> ServiceEndpoint.IsActive (PrimaryEndpoint config)
               \<and> isEndpointHealthy s (ServiceConfig.TenantID config)
                    (ServiceConfig.ServiceName config) (URL (PrimaryEndpoint config)))
       \<and> ResolveFallbackChain s clock config =
     (if ServiceEndpoint.IsActive (PrimaryEndpoint config)
          \<and> isEndpointHealthy s (ServiceConfig.TenantID config) (ServiceConfig.ServiceName config)
               (URL (PrimaryEndpoint config))
      then (\<lparr>FallbackChainResult.TenantID = ServiceConfig.TenantID config,
             FallbackChainResult.ServiceName = ServiceConfig.ServiceName config,
             AttemptedURLs = [], AttemptedAt = clock 0,
             ResolvedURL = URL (PrimaryEndpoint config),
             UsedEndpoint = Some (PrimaryEndpoint config),
             IsDefault = False, Success = True, Error = []\<rparr>, None)
      else if DefaultServiceURL config \<noteq> []
      then (\<lparr>FallbackChainResult.TenantID = ServiceConfig.TenantID config,
             FallbackChainResult.ServiceName = ServiceConfig.ServiceName config,
             AttemptedURLs = [URL (PrimaryEndpoint config)], AttemptedAt = clock 0,
             ResolvedURL = DefaultServiceURL config,
             UsedEndpoint = None,
             IsDefault = True, Success = True, Error = []\<rparr>, None)
      else (\<lparr>FallbackChainResult.TenantID = ServiceConfig.TenantID config,
             FallbackChainResult.ServiceName = ServiceConfig.ServiceName config,
             AttemptedURLs = [URL (PrimaryEndpoint config)], AttemptedAt = clock 0,
             ResolvedURL = [],
             UsedEndpoint = None,
             IsDefault = False, Success = False,
             Error = ''all endpoints in fallback chain are unhealthy''\<rparr>,
            Some ''no healthy endpoints available''))"
  by (simp add: ResolveFallbackChain_empty_chain [OF assms])

theorem ResolveFallbackChain_primary_or_default_witness:
  "FallbackChain primaryOnlyConfig = []
   \<and> UsedEndpoint (fst (ResolveFallbackChain NewServiceRegistry exampleClock primaryOnlyConfig))
       = Some endpointB
   \<and> ResolvedURL (fst (ResolveFallbackChain NewServiceRegistry exampleClock primaryOnlyConfig))
       = ''http://b.internal:8080''
   \<and> snd (ResolveFallbackChain NewServiceRegistry exampleClock primaryOnlyConfig) = None"
proof -
  have h: "FallbackChain primaryOnlyConfig = []"
    by (simp add: primaryOnlyConfig_def)
  from ResolveFallbackChain_primary_or_default [OF h, of NewServiceRegistry exampleClock] h
  show ?thesis
    by (simp add: primaryOnlyConfig_def scenarioConfig_def endpointB_def NewServiceRegistry_def
        isEndpointHealthy_def)
qed

text \<open>
  C7, as the claim states it, fails when \<open>DefaultServiceURL\<close> is empty: with an empty
  fallback chain and an inactive primary, the result is not the default URL with
  \<open>IsDefault = True\<close> but a failure.
\<close>

theorem ResolveFallbackChain_no_default_counterexample:
  "FallbackChain noDefaultConfig = []
   \<and> \<not> (ServiceEndpoint.IsActive (PrimaryEndpoint noDefaultConfig)
         \<and> isEndpointHealthy NewServiceRegistry ''tenant-1'' ''auth''
              (URL (PrimaryEndpoint noDefaultConfig)))
   \<and> \<not> IsDefault (fst (ResolveFallbackChain NewServiceRegistry exampleClock noDefaultConfig))
   \<and> \<not> Success (fst (ResolveFallbackChain NewServiceRegistry exampleClock noDefaultConfig))
   \<and> snd (ResolveFallbackChain NewServiceRegistry exampleClock noDefaultConfig)
       = Some ''no healthy endpoints available''"
  by (simp add: noDefaultConfig_def scenarioConfig_def endpointA_def ResolveFallbackChain_def
      Let_def)




section \<open>Configuration model: the priority sort\<close>

lemma sortInner_length:
  "length (sortInner i j xs) = length xs"
proof (induction i j xs rule: sortInner.induct)
  case (1 i j xs)
  show ?case
  proof (cases "j < length xs")
    case True
    with "1.IH" show ?thesis
      by (subst sortInner.simps) simp
  next
    case False
    then show ?thesis
      by (subst sortInner.simps) simp
  qed
qed

lemma sortInner_mset:
  assumes "i < length xs"
  shows "mset (sortInner i j xs) = mset xs"
  using assms
proof (induction i j xs rule: sortInner.induct)
  case (1 i j xs)
  show ?case
  proof (cases "j < length xs")
    case True
    let ?xs' = "if Priority (xs ! j) <s Priority (xs ! i)
                then xs[i := xs ! j, j := xs ! i] else xs"
    from True "1.prems" have "mset ?xs' = mset xs"
      by (simp add: mset_swap)
    moreover from "1.prems" have "i < length ?xs'"
      by simp
    with "1.IH" [OF True] have "mset (sortInner i (j + 1) ?xs') = mset ?xs'"
      by blast
    ultimately show ?thesis
      using True by (subst sortInner.simps) simp
  next
    case False
    then show ?thesis
      by (subst sortInner.simps) simp
  qed
qed

lemma sortInner_prefix:
  assumes "i < j"
  shows "take i (sortInner i j xs) = take i xs"
  using assms
proof (induction i j xs rule: sortInner.induct)
  case (1 i j xs)
  show ?case
  proof (cases "j < length xs")
    case True
    let ?xs' = "if Priority (xs ! j) <s Priority (xs ! i)
                then xs[i := xs ! j, j := xs ! i] else xs"
    from "1.prems" have "take i ?xs' = take i xs"
      by simp
    moreover from "1.IH" [OF True] "1.prems"
    have "take i (sortInner i (j + 1) ?xs') = take i ?xs'"
      by simp
    ultimately show ?thesis
      using True by (subst sortInner.simps) simp
  next
    case False
    then show ?thesis
      by (subst sortInner.simps) simp
  qed
qed

lemma sortInner_least:
  assumes "i < j"
    and "\<forall>k. i < k \<and> k < j \<and> k < length xs \<longrightarrow> sint (Priority (xs ! i)) \<le> sint (Priority (xs ! k))"
  shows "\<forall>k. i < k \<and> k < length xs \<longrightarrow>
           sint (Priority (sortInner i j xs ! i)) \<le> sint (Priority (sortInner i j xs ! k))"
  using assms
proof (induction i j xs rule: sortInner.induct)
  case (1 i j xs)
  show ?case
  proof (cases "j < length xs")
    case True
    let ?xs' = "if Priority (xs ! j) <s Priority (xs ! i)
                then xs[i := xs ! j, j := xs ! i] else xs"
    from "1.prems"(1) True have i: "i < length xs"
      by simp
    have len: "length ?xs' = length xs"
      by simp
    have inv: "\<forall>k. i < k \<and> k < j + 1 \<and> k < length ?xs' \<longrightarrow>
                 sint (Priority (?xs' ! i)) \<le> sint (Priority (?xs' ! k))"
    proof (intro allI impI)
      fix k assume k: "i < k \<and> k < j + 1 \<and> k < length ?xs'"
      show "sint (Priority (?xs' ! i)) \<le> sint (Priority (?xs' ! k))"
      proof (cases "Priority (xs ! j) <s Priority (xs ! i)")
        case swap: True
        then have lt: "sint (Priority (xs ! j)) < sint (Priority (xs ! i))"
          by (simp add: word_sless_alt)
        from "1.prems"(1) i True have at_i: "?xs' ! i = xs ! j"
          using swap by (simp add: nth_list_update)
        show ?thesis
        proof (cases "k = j")
          case True
          with \<open>j < length xs\<close> swap have "?xs' ! k = xs ! i"
            by simp
          with at_i lt show ?thesis
            by simp
        next
          case False
          with k have kj: "k < j"
            by simp
          with k swap have "?xs' ! k = xs ! k"
            by simp
          moreover from "1.prems"(2) k kj True
          have "sint (Priority (xs ! i)) \<le> sint (Priority (xs ! k))"
            by simp
          ultimately show ?thesis
            using at_i lt by simp
        qed
      next
        case keep: False
        then have ge: "sint (Priority (xs ! i)) \<le> sint (Priority (xs ! j))"
          by (simp add: word_sless_alt)
        show ?thesis
        proof (cases "k = j")
          case True
          with keep ge show ?thesis
            by simp
        next
          case False
          with k have kj: "k < j"
            by simp
          with "1.prems"(2) k True keep show ?thesis
            by simp
        qed
      qed
    qed
    from "1.prems"(1) have "i < j + 1"
      by simp
    from "1.IH" [OF True this inv] len
    have "\<forall>k. i < k \<and> k < length xs \<longrightarrow>
            sint (Priority (sortInner i (j + 1) ?xs' ! i))
              \<le> sint (Priority (sortInner i (j + 1) ?xs' ! k))"
      by simp
    moreover have "sortInner i j xs = sortInner i (j + 1) ?xs'"
      using True by (subst sortInner.simps) simp
    ultimately show ?thesis
      by simp
  next
    case False
    then have "sortInner i j xs = xs"
      by (subst sortInner.simps) simp
    with "1.prems" False show ?thesis
      by simp
  qed
qed


lemma sortOuter_mset:
  "mset (sortOuter i xs) = mset xs"
proof (induction i xs rule: sortOuter.induct)
  case (1 i xs)
  show ?case
  proof (cases "i < length xs")
    case True
    with "1.IH" sortInner_mset [OF True, of "i + 1"] show ?thesis
      by (subst sortOuter.simps) simp
  next
    case False
    then show ?thesis
      by (subst sortOuter.simps) simp
  qed
qed

lemma sortOuter_sorted:
  assumes "sorted_wrt byPriority (take i xs)"
    and "\<forall>a\<in>set (take i xs). \<forall>b\<in>set (drop i xs). byPriority a b"
  shows "sorted_wrt byPriority (sortOuter i xs)"
  using assms
proof (induction i xs rule: sortOuter.induct)
  case (1 i xs)
  show ?case
  proof (cases "i < length xs")
    case True
    let ?ys = "sortInner i (Suc i) xs"
    have len: "length ?ys = length xs"
      by (rule sortInner_length)
    have pre: "take i ?ys = take i xs"
      by (rule sortInner_prefix) simp
    have "mset (take i ?ys) + mset (drop i ?ys) = mset (take i xs) + mset (drop i xs)"
      using sortInner_mset [OF True, of "i + 1"]
      by (simp flip: mset_append)
    then have "mset (drop i ?ys) = mset (drop i xs)"
      unfolding pre by simp
    then have rest: "set (drop i ?ys) = set (drop i xs)"
      by (rule mset_eq_setD)
    have least: "\<forall>k. i < k \<and> k < length xs \<longrightarrow>
                   sint (Priority (?ys ! i)) \<le> sint (Priority (?ys ! k))"
      by (rule sortInner_least) simp_all
    from True len have "?ys ! i \<in> set (drop i ?ys)"
      by (metis Cons_nth_drop_Suc list.set_intros(1))
    with rest have here: "?ys ! i \<in> set (drop i xs)"
      by simp
    from True len have tk: "take (Suc i) ?ys = take i xs @ [?ys ! i]"
      by (simp add: take_Suc_conv_app_nth pre)
    have sorted: "sorted_wrt byPriority (take (Suc i) ?ys)"
      unfolding tk using "1.prems" here by (simp add: sorted_wrt_append)
    have bound: "\<forall>a\<in>set (take (Suc i) ?ys). \<forall>b\<in>set (drop (Suc i) ?ys). byPriority a b"
    proof (intro ballI)
      fix a b
      assume a: "a \<in> set (take (Suc i) ?ys)" and b: "b \<in> set (drop (Suc i) ?ys)"
      from b have b_rest: "b \<in> set (drop i xs)"
          using rest set_drop_subset_set_drop [of i "Suc i" ?ys] by auto
      from b obtain m where m: "m < length ?ys - Suc i" "b = ?ys ! (Suc i + m)"
        by (auto simp: in_set_conv_nth)
      from a tk consider "a \<in> set (take i xs)" | "a = ?ys ! i"
        by auto
      then show "byPriority a b"
      proof cases
        case 1
        with "1.prems"(2) b_rest show ?thesis
          by blast
      next
        case 2
        from m len least have "sint (Priority (?ys ! i)) \<le> sint (Priority (?ys ! (Suc i + m)))"
          by simp
        with 2 m show ?thesis
          by (simp add: byPriority_def word_sle_eq)
      qed
    qed
    from "1.IH" [OF True] sorted bound
    have "sorted_wrt byPriority (sortOuter (Suc i) ?ys)"
      by simp
    then show ?thesis
      using True by (subst sortOuter.simps) simp
  next
    case False
    then have "sortOuter i xs = xs"
      by (subst sortOuter.simps) simp
    moreover from False have "take i xs = xs"
      by simp
    ultimately show ?thesis
      using "1.prems"(1) by simp
  qed
qed

lemma GetEndpointByPriority_sorted:
  "sorted_wrt byPriority (GetEndpointByPriority sc)"
  unfolding GetEndpointByPriority_def
  by (rule sortOuter_sorted) simp_all

lemma example_priorities:
  "Priority endpointP = 2" "Priority endpointQ = 2" "Priority endpointR = 1"
  "ServiceEndpoint.IsActive endpointP" "ServiceEndpoint.IsActive endpointQ"
  "ServiceEndpoint.IsActive endpointR"
  "Weight endpointP = 1" "Weight endpointQ = 2" "Weight endpointR = 3"
  by (simp_all add: endpointP_def endpointQ_def endpointR_def)

lemma priorityConfig_active:
  "GetActiveEndpoints priorityConfig = [endpointP, endpointQ, endpointR]"
  by (simp add: GetActiveEndpoints_def priorityConfig_def example_priorities)

text \<open>
  C3, as the code has it. \<open>GetEndpointByPriority\<close> returns the active endpoints (the
  primary if active, then the active fallback entries) sorted ascending by priority:
  the result is a permutation of \<open>GetActiveEndpoints\<close> and is in ascending order of
  priority. The order among endpoints of equal priority is not part of the statement.
\<close>

theorem GetEndpointByPriority_sorted_permutation:
  "mset (GetEndpointByPriority sc) = mset (GetActiveEndpoints sc)
   \<and> sorted_wrt byPriority (GetEndpointByPriority sc)"
  using sortOuter_mset [of 0 "GetActiveEndpoints sc"] GetEndpointByPriority_sorted [of sc]
  by (simp add: GetEndpointByPriority_def)

theorem GetEndpointByPriority_sorted_permutation_witness:
  "mset (GetEndpointByPriority priorityConfig) = mset [endpointP, endpointQ, endpointR]
   \<and> sorted_wrt byPriority (GetEndpointByPriority priorityConfig)"
  using GetEndpointByPriority_sorted_permutation [of priorityConfig]
  by (simp add: priorityConfig_active)

text \<open>
  C3, as the claim states it, fails: the exchange sort is not stable. The active
  endpoints P, Q, R come in this order, P and Q with the same priority 2 and R with
  priority 1. The first swap exchanges P and R, which puts P behind Q: the result is
  [R, Q, P], where a stable sort gives [R, P, Q].
\<close>

theorem GetEndpointByPriority_stability_counterexample:
  "GetActiveEndpoints priorityConfig = [endpointP, endpointQ, endpointR]
   \<and> Priority endpointP = Priority endpointQ
   \<and> endpointP \<noteq> endpointQ
   \<and> GetEndpointByPriority priorityConfig = [endpointR, endpointQ, endpointP]
   \<and> sort_key (\<lambda>ep. sint (Priority ep)) (GetActiveEndpoints priorityConfig)
       = [endpointR, endpointP, endpointQ]"
proof -
  have "endpointP \<noteq> endpointQ"
    by (simp add: endpointP_def endpointQ_def)
  moreover have "GetEndpointByPriority priorityConfig = [endpointR, endpointQ, endpointP]"
    unfolding GetEndpointByPriority_def priorityConfig_active
    by (simp add: sortOuter.simps sortInner.simps example_priorities word_sless_alt)
  moreover have "sort_key (\<lambda>ep. sint (Priority ep)) [endpointP, endpointQ, endpointR]
       = [endpointR, endpointP, endpointQ]"
    by (simp add: example_priorities)
  ultimately show ?thesis
    by (simp add: priorityConfig_active example_priorities)
qed

section \<open>Endpoint resolver: load balancing\<close>

lemma sint_succ:
  fixes w :: go_int
  assumes "0 \<le> sint w" and "sint w < 2 ^ 63 - 1"
  shows "sint (w + 1) = sint w + 1"
proof -
  have "sint (w + 1) = signed_take_bit 63 (sint w + 1)"
    by (simp add: sint_word_ariths)
  also from assms have "\<dots> = sint w + 1"
    by (intro signed_take_bit_int_eq_self) simp_all
  finally show ?thesis .
qed

lemma sint_word_of_int_small:
  assumes "0 \<le> x" and "x < 2 ^ 63"
  shows "sint (word_of_int x :: go_int) = x"
proof -
  have "sint (word_of_int x :: go_int) = signed_take_bit 63 x"
    by (simp add: sint_sbintrunc')
  also from assms have "\<dots> = x"
    by (intro signed_take_bit_int_eq_self) simp_all
  finally show ?thesis .
qed

lemma smod_nonneg:
  fixes a n :: int
  assumes "0 \<le> a" and "0 < n"
  shows "a smod n = a mod n"
  using assms by (cases "a = 0") (simp_all add: smod_int_alt_def sgn_if)


lemma lbCursor_update:
  "lbCursor (s\<lparr>loadBalanceIdx := (loadBalanceIdx s)(key \<mapsto> w)\<rparr>) key = w"
  by (simp add: lbCursor_def)

lemma roundRobinSelect_step:
  assumes ne: "endpoints \<noteq> []" and len: "int (length endpoints) < 2 ^ 63"
    and lo: "0 \<le> sint (lbCursor s (lbKey t sv))"
    and hi: "sint (lbCursor s (lbKey t sv)) < 2 ^ 63 - 1"
  shows "roundRobinSelect s t sv endpoints =
           Inr ((URL (endpoints ! (nat (sint (lbCursor s (lbKey t sv))) mod length endpoints)),
                 Some (endpoints ! (nat (sint (lbCursor s (lbKey t sv))) mod length endpoints))),
                s\<lparr>loadBalanceIdx := (loadBalanceIdx s)(lbKey t sv \<mapsto>
                     word_of_int (int ((nat (sint (lbCursor s (lbKey t sv))) + 1)
                                        mod length endpoints)))\<rparr>)"
proof -
  let ?idx = "lbCursor s (lbKey t sv)"
  let ?c = "nat (sint ?idx)"
  let ?n = "length endpoints"
  from ne have pos: "0 < int ?n"
    by simp
  from lo have c: "sint ?idx = int ?c"
    by simp
  have cur: "sint ?idx smod int ?n = int (?c mod ?n)"
    using smod_nonneg [OF lo pos] c by (simp add: zmod_int)
  have "sint (?idx + 1) = int (?c + 1)"
    using sint_succ [OF lo hi] c by simp
  moreover have "0 \<le> int (?c + 1)"
    by simp
  ultimately have nxt: "sint (?idx + 1) smod int ?n = int ((?c + 1) mod ?n)"
    using smod_nonneg [OF _ pos, of "int (?c + 1)"] by (simp add: zmod_int)
  from ne have "?c mod ?n < ?n"
    by simp
  then have idx: "go_index endpoints (int (?c mod ?n)) = Inr (endpoints ! (?c mod ?n))"
    by (simp add: go_index_def)
  from ne show ?thesis
    unfolding roundRobinSelect_def Let_def cur nxt idx
    by simp
qed


lemma roundRobinCalls_run:
  assumes ne: "endpoints \<noteq> []" and len: "int (length endpoints) < 2 ^ 63"
    and lo: "0 \<le> sint (lbCursor s (lbKey t sv))"
    and hi: "sint (lbCursor s (lbKey t sv)) < 2 ^ 63 - 1"
  shows "roundRobinCalls s t sv endpoints m =
           Inr (map (\<lambda>k. (URL (endpoints ! ((nat (sint (lbCursor s (lbKey t sv))) + k)
                                              mod length endpoints)),
                          Some (endpoints ! ((nat (sint (lbCursor s (lbKey t sv))) + k)
                                              mod length endpoints))))
                    [0..<m],
                if m = 0 then s
                else s\<lparr>loadBalanceIdx := (loadBalanceIdx s)(lbKey t sv \<mapsto>
                       word_of_int (int ((nat (sint (lbCursor s (lbKey t sv))) + m)
                                          mod length endpoints)))\<rparr>)"
  using lo hi
proof (induction m arbitrary: s)
  case 0
  show ?case by simp
next
  case (Suc m)
  let ?key = "lbKey t sv"
  let ?n = "length endpoints"
  let ?c = "nat (sint (lbCursor s ?key))"
  let ?w1 = "word_of_int (int ((?c + 1) mod ?n)) :: go_int"
  let ?s1 = "s\<lparr>loadBalanceIdx := (loadBalanceIdx s)(?key \<mapsto> ?w1)\<rparr>"
  from ne have lt: "(?c + 1) mod ?n < ?n"
    by simp
  with len have small: "int ((?c + 1) mod ?n) < 2 ^ 63 - 1"
    by linarith
  then have sint1: "sint ?w1 = int ((?c + 1) mod ?n)"
    by (intro sint_word_of_int_small) simp_all
  have cur1: "lbCursor ?s1 ?key = ?w1"
    by (rule lbCursor_update)
  have lo1: "0 \<le> sint (lbCursor ?s1 ?key)"
    unfolding cur1 sint1 by simp
  have hi1: "sint (lbCursor ?s1 ?key) < 2 ^ 63 - 1"
    unfolding cur1 sint1 using small .
  have c1: "nat (sint (lbCursor ?s1 ?key)) = (?c + 1) mod ?n"
    unfolding cur1 sint1 by simp
  have shift: "((?c + 1) mod ?n + k) mod ?n = (?c + Suc k) mod ?n" for k
    by (simp add: mod_add_left_eq)
  have first: "roundRobinSelect s t sv endpoints =
                 Inr ((URL (endpoints ! (?c mod ?n)), Some (endpoints ! (?c mod ?n))), ?s1)"
    by (rule roundRobinSelect_step [OF ne len Suc.prems])
  have rest: "roundRobinCalls ?s1 t sv endpoints m =
           Inr (map (\<lambda>k. (URL (endpoints ! ((?c + Suc k) mod ?n)),
                          Some (endpoints ! ((?c + Suc k) mod ?n))))
                    [0..<m],
                if m = 0 then ?s1
                else ?s1\<lparr>loadBalanceIdx := (loadBalanceIdx ?s1)(?key \<mapsto>
                       word_of_int (int ((?c + Suc m) mod ?n)))\<rparr>)"
    using Suc.IH [OF lo1 hi1] unfolding c1 shift .
  have "roundRobinCalls s t sv endpoints (Suc m) =
          Inr ((URL (endpoints ! (?c mod ?n)), Some (endpoints ! (?c mod ?n)))
               # map (\<lambda>k. (URL (endpoints ! ((?c + Suc k) mod ?n)),
                              Some (endpoints ! ((?c + Suc k) mod ?n))))
                   [0..<m],
               if m = 0 then ?s1
               else ?s1\<lparr>loadBalanceIdx := (loadBalanceIdx ?s1)(?key \<mapsto>
                      word_of_int (int ((?c + Suc m) mod ?n)))\<rparr>)"
    by (simp only: roundRobinCalls.simps first rest sum.case prod.case)
  then show ?case
    by (simp add: map_upt_Suc del: upt_Suc)
qed



lemma rotate_as_map:
  "rotate c xs = map (\<lambda>k. xs ! ((c + k) mod length xs)) [0..<length xs]"
  by (rule nth_equalityI) (simp_all add: nth_rotate add.commute)

text \<open>
  The bounds on the cursor hold in every state the registry reaches: no other operation
  writes the cursor table.
\<close>

lemma NewServiceRegistry_cursor:
  "lbCursor NewServiceRegistry key = 0"
  by (simp add: lbCursor_def NewServiceRegistry_def)

lemma roundRobinSelect_cursor_range:
  assumes len: "int (length endpoints) < 2 ^ 63"
    and inv: "\<forall>key. 0 \<le> sint (lbCursor s key) \<and> sint (lbCursor s key) < 2 ^ 63 - 1"
  shows "\<exists>r s'. roundRobinSelect s t sv endpoints = Inr (r, s')
           \<and> (\<forall>key. 0 \<le> sint (lbCursor s' key) \<and> sint (lbCursor s' key) < 2 ^ 63 - 1)"
proof (cases "endpoints = []")
  case True
  with inv show ?thesis
    by (simp add: roundRobinSelect_def)
next
  case False
  let ?n = "length endpoints"
  let ?c = "nat (sint (lbCursor s (lbKey t sv)))"
  let ?w = "word_of_int (int ((?c + 1) mod ?n)) :: go_int"
  let ?s' = "s\<lparr>loadBalanceIdx := (loadBalanceIdx s)(lbKey t sv \<mapsto> ?w)\<rparr>"
  from inv have lo: "0 \<le> sint (lbCursor s (lbKey t sv))"
    and hi: "sint (lbCursor s (lbKey t sv)) < 2 ^ 63 - 1"
    by simp_all
  from False have "(?c + 1) mod ?n < ?n"
    by simp
  with len have small: "int ((?c + 1) mod ?n) < 2 ^ 63 - 1"
    by linarith
  then have sint_w: "sint ?w = int ((?c + 1) mod ?n)"
    by (intro sint_word_of_int_small) simp_all
  have "\<forall>key. 0 \<le> sint (lbCursor ?s' key) \<and> sint (lbCursor ?s' key) < 2 ^ 63 - 1"
  proof
    fix key
    show "0 \<le> sint (lbCursor ?s' key) \<and> sint (lbCursor ?s' key) < 2 ^ 63 - 1"
    proof (cases "key = lbKey t sv")
      case True
      then have "lbCursor ?s' key = ?w"
        by (simp add: lbCursor_def)
      with sint_w small show ?thesis
        by simp
    next
      case False
      then have "lbCursor ?s' key = lbCursor s key"
        by (simp add: lbCursor_def)
      with inv show ?thesis
        by simp
    qed
  qed
  with roundRobinSelect_step [OF False len lo hi] show ?thesis
    by blast
qed

lemma UpdateHealthStatus_loadBalanceIdx:
  "loadBalanceIdx (UpdateHealthStatus s clock t sv u healthy) = loadBalanceIdx s"
  by (simp add: UpdateHealthStatus_def Let_def split: option.splits)

lemma selectEndpoint_cursor_range:
  assumes len: "int (length (GetActiveEndpoints config)) < 2 ^ 63"
    and inv: "\<forall>key. 0 \<le> sint (lbCursor s key) \<and> sint (lbCursor s key) < 2 ^ 63 - 1"
    and sel: "selectEndpoint s seed config = Inr (r, s')"
  shows "\<forall>key. 0 \<le> sint (lbCursor s' key) \<and> sint (lbCursor s' key) < 2 ^ 63 - 1"
proof -
  from roundRobinSelect_cursor_range [OF len inv,
      of "ServiceConfig.TenantID config" "ServiceConfig.ServiceName config"]
  obtain r1 s1 where rr: "roundRobinSelect s (ServiceConfig.TenantID config)
        (ServiceConfig.ServiceName config) (GetActiveEndpoints config) = Inr (r1, s1)"
    and inv1: "\<forall>key. 0 \<le> sint (lbCursor s1 key) \<and> sint (lbCursor s1 key) < 2 ^ 63 - 1"
    by blast
  from sel have "s' = s \<or> s' = s1"
    unfolding selectEndpoint_def Let_def rr keepState_def
    by (auto split: if_splits sum.splits)
  with inv inv1 show ?thesis
    by blast
qed

text \<open>
  C4. For a candidate list that is not empty and a cursor the registry can hold (cursors
  start at zero and \<open>roundRobinSelect\<close> alone writes them, so they stay within
  \<open>[0, 2^63 - 1)\<close>; a slice has fewer than \<open>2^63\<close> elements): each call returns
  \<open>candidates[cursor % N]\<close> and stores \<open>(cursor + 1) % N\<close>; \<open>N\<close> consecutive
  calls return the candidates in list order starting at the cursor, each position
  once (the list rotated by the cursor), and leave the cursor where it started modulo
  \<open>N\<close>; and for every \<open>m\<close> the \<open>k\<close>-th of \<open>m\<close> consecutive calls returns
  \<open>candidates[(cursor + k) % N]\<close>, so the cycle repeats without end.
\<close>

theorem roundRobinSelect_cycle:
  assumes "endpoints \<noteq> []" and "int (length endpoints) < 2 ^ 63"
    and "0 \<le> sint (lbCursor s (lbKey t sv))"
    and "sint (lbCursor s (lbKey t sv)) < 2 ^ 63 - 1"
  shows "roundRobinSelect s t sv endpoints =
           Inr ((URL (endpoints ! (nat (sint (lbCursor s (lbKey t sv))) mod length endpoints)),
                 Some (endpoints ! (nat (sint (lbCursor s (lbKey t sv))) mod length endpoints))),
                s\<lparr>loadBalanceIdx := (loadBalanceIdx s)(lbKey t sv \<mapsto>
                     word_of_int (int ((nat (sint (lbCursor s (lbKey t sv))) + 1)
                                        mod length endpoints)))\<rparr>)
       \<and> roundRobinCalls s t sv endpoints (length endpoints) =
           Inr (map (\<lambda>ep. (URL ep, Some ep))
                  (rotate (nat (sint (lbCursor s (lbKey t sv)))) endpoints),
                s\<lparr>loadBalanceIdx := (loadBalanceIdx s)(lbKey t sv \<mapsto>
                     word_of_int (int (nat (sint (lbCursor s (lbKey t sv)))
                                        mod length endpoints)))\<rparr>)
       \<and> roundRobinCalls s t sv endpoints m =
           Inr (map (\<lambda>k. (URL (endpoints ! ((nat (sint (lbCursor s (lbKey t sv))) + k)
                                              mod length endpoints)),
                          Some (endpoints ! ((nat (sint (lbCursor s (lbKey t sv))) + k)
                                              mod length endpoints))))
                    [0..<m],
                if m = 0 then s
                else s\<lparr>loadBalanceIdx := (loadBalanceIdx s)(lbKey t sv \<mapsto>
                       word_of_int (int ((nat (sint (lbCursor s (lbKey t sv))) + m)
                                          mod length endpoints)))\<rparr>)"
proof (intro conjI)
  show "roundRobinSelect s t sv endpoints =
           Inr ((URL (endpoints ! (nat (sint (lbCursor s (lbKey t sv))) mod length endpoints)),
                 Some (endpoints ! (nat (sint (lbCursor s (lbKey t sv))) mod length endpoints))),
                s\<lparr>loadBalanceIdx := (loadBalanceIdx s)(lbKey t sv \<mapsto>
                     word_of_int (int ((nat (sint (lbCursor s (lbKey t sv))) + 1)
                                        mod length endpoints)))\<rparr>)"
    by (rule roundRobinSelect_step [OF assms])
next
  show "roundRobinCalls s t sv endpoints m =
           Inr (map (\<lambda>k. (URL (endpoints ! ((nat (sint (lbCursor s (lbKey t sv))) + k)
                                              mod length endpoints)),
                          Some (endpoints ! ((nat (sint (lbCursor s (lbKey t sv))) + k)
                                              mod length endpoints))))
                    [0..<m],
                if m = 0 then s
                else s\<lparr>loadBalanceIdx := (loadBalanceIdx s)(lbKey t sv \<mapsto>
                       word_of_int (int ((nat (sint (lbCursor s (lbKey t sv))) + m)
                                          mod length endpoints)))\<rparr>)"
    by (rule roundRobinCalls_run [OF assms])
next
  let ?c = "nat (sint (lbCursor s (lbKey t sv)))"
  have "map (\<lambda>ep. (URL ep, Some ep)) (rotate ?c endpoints) =
        map (\<lambda>k. (URL (endpoints ! ((?c + k) mod length endpoints)),
                   Some (endpoints ! ((?c + k) mod length endpoints))))
          [0..<length endpoints]"
    by (subst rotate_as_map) (simp add: comp_def)
  with roundRobinCalls_run [OF assms, of "length endpoints"] assms(1)
  show "roundRobinCalls s t sv endpoints (length endpoints) =
           Inr (map (\<lambda>ep. (URL ep, Some ep)) (rotate ?c endpoints),
                s\<lparr>loadBalanceIdx := (loadBalanceIdx s)(lbKey t sv \<mapsto>
                     word_of_int (int (?c mod length endpoints)))\<rparr>)"
    by simp
qed

theorem roundRobinSelect_cycle_witness:
  "[endpointP, endpointQ, endpointR] \<noteq> []
   \<and> int (length [endpointP, endpointQ, endpointR]) < 2 ^ 63
   \<and> 0 \<le> sint (lbCursor NewServiceRegistry (lbKey ''tenant-1'' ''auth''))
   \<and> sint (lbCursor NewServiceRegistry (lbKey ''tenant-1'' ''auth'')) < 2 ^ 63 - 1
   \<and> roundRobinCalls NewServiceRegistry ''tenant-1'' ''auth'' [endpointP, endpointQ, endpointR] 3 =
       Inr ([(URL endpointP, Some endpointP), (URL endpointQ, Some endpointQ),
             (URL endpointR, Some endpointR)],
            NewServiceRegistry\<lparr>loadBalanceIdx := [lbKey ''tenant-1'' ''auth'' \<mapsto> 0]\<rparr>)"
proof -
  have h: "[endpointP, endpointQ, endpointR] \<noteq> []"
    "int (length [endpointP, endpointQ, endpointR]) < 2 ^ 63"
    "0 \<le> sint (lbCursor NewServiceRegistry (lbKey ''tenant-1'' ''auth''))"
    "sint (lbCursor NewServiceRegistry (lbKey ''tenant-1'' ''auth'')) < 2 ^ 63 - 1"
    by (simp_all add: NewServiceRegistry_cursor)
  have l: "length [endpointP, endpointQ, endpointR] = 3"
    by simp
  have c: "lbCursor NewServiceRegistry (lbKey ''tenant-1'' ''auth'') = 0"
    by (rule NewServiceRegistry_cursor)
  from roundRobinSelect_cycle [OF h, of 0]
  have "roundRobinCalls NewServiceRegistry ''tenant-1'' ''auth'' [endpointP, endpointQ, endpointR] 3 =
          Inr (map (\<lambda>ep. (URL ep, Some ep)) (rotate 0 [endpointP, endpointQ, endpointR]),
               NewServiceRegistry\<lparr>loadBalanceIdx :=
                 (loadBalanceIdx NewServiceRegistry)(lbKey ''tenant-1'' ''auth'' \<mapsto> 0)\<rparr>)"
    unfolding c l by simp
  with h show ?thesis
    by (simp add: NewServiceRegistry_def)
qed

lemma rand_Intn_range:
  assumes "0 < n"
  shows "rand_Intn seed n = Inr (int seed mod n)" and "0 \<le> int seed mod n" and "int seed mod n < n"
  using assms by (simp_all add: rand_Intn_def)

lemma rand_Intn_any:
  assumes "0 \<le> r" and "r < n"
  shows "rand_Intn (nat r) n = Inr r"
  using assms by (simp add: rand_Intn_def)

lemma randomSelect_nonempty:
  assumes "endpoints \<noteq> []"
  shows "randomSelect seed endpoints =
           Inr (URL (endpoints ! (seed mod length endpoints)),
                Some (endpoints ! (seed mod length endpoints)))"
proof -
  from assms have pos: "0 < int (length endpoints)"
    by simp
  have m: "int seed mod int (length endpoints) = int (seed mod length endpoints)"
    by (simp add: zmod_int)
  from assms have lt: "seed mod length endpoints < length endpoints"
    by simp
  from assms pos lt show ?thesis
    unfolding randomSelect_def rand_Intn_range(1) [OF pos] m
    by (simp add: go_index_def)
qed

lemma fold_weight:
  "fold (\<lambda>ep total. total + Weight ep) xs acc = acc + totalWeight xs"
proof (induction xs arbitrary: acc)
  case Nil
  show ?case by (simp add: totalWeight_def)
next
  case (Cons x xs)
  have "fold (\<lambda>ep total. total + Weight ep) (x # xs) acc
        = fold (\<lambda>ep total. total + Weight ep) xs (acc + Weight x)"
    by simp
  also have "\<dots> = acc + Weight x + totalWeight xs"
    by (rule Cons.IH)
  also have "totalWeight (x # xs) = Weight x + totalWeight xs"
    using Cons.IH [of "0 + Weight x"] by (simp add: totalWeight_def)
  then have "acc + Weight x + totalWeight xs = acc + totalWeight (x # xs)"
    by (simp add: add.assoc)
  finally show ?case .
qed

lemma totalWeight_Cons:
  "totalWeight (x # xs) = Weight x + totalWeight xs"
  using fold_weight [of xs "0 + Weight x"] by (simp add: totalWeight_def)

lemma weightedWalk_first:
  "(weightedWalk r acc xs = None
      \<and> (\<forall>j<length xs. \<not> r < sint (acc + totalWeight (take (Suc j) xs))))
   \<or> (\<exists>i<length xs. weightedWalk r acc xs = Some (xs ! i)
         \<and> r < sint (acc + totalWeight (take (Suc i) xs))
         \<and> (\<forall>j<i. \<not> r < sint (acc + totalWeight (take (Suc j) xs))))"
proof (induction xs arbitrary: acc)
  case Nil
  show ?case by simp
next
  case (Cons x xs)
  show ?case
  proof (cases "r < sint (acc + Weight x)")
    case True
    then have "weightedWalk r acc (x # xs) = Some ((x # xs) ! 0)
         \<and> r < sint (acc + totalWeight (take (Suc 0) (x # xs)))
         \<and> (\<forall>j<0. \<not> r < sint (acc + totalWeight (take (Suc j) (x # xs))))"
      by (simp add: totalWeight_Cons totalWeight_def)
    then show ?thesis by blast
  next
    case False
    have step: "acc + totalWeight (take (Suc (Suc j)) (x # xs))
                = acc + Weight x + totalWeight (take (Suc j) xs)" for j
      by (simp add: totalWeight_Cons add.assoc)
    have zero: "acc + totalWeight (take (Suc 0) (x # xs)) = acc + Weight x"
      by (simp add: totalWeight_Cons totalWeight_def)
    have walk: "weightedWalk r acc (x # xs) = weightedWalk r (acc + Weight x) xs"
      using False by simp
    from Cons.IH [of "acc + Weight x"] show ?thesis
    proof (elim disjE conjE exE)
      assume none: "weightedWalk r (acc + Weight x) xs = None"
        and all: "\<forall>j<length xs. \<not> r < sint (acc + Weight x + totalWeight (take (Suc j) xs))"
      have "\<forall>j<length (x # xs). \<not> r < sint (acc + totalWeight (take (Suc j) (x # xs)))"
      proof (intro allI impI)
        fix j assume j: "j < length (x # xs)"
        show "\<not> r < sint (acc + totalWeight (take (Suc j) (x # xs)))"
        proof (cases j)
          case 0
          from False show ?thesis
            unfolding 0 zero .
        next
          case (Suc k)
          with j have "k < length xs"
            by simp
          with all have "\<not> r < sint (acc + Weight x + totalWeight (take (Suc k) xs))"
            by blast
          then show ?thesis
            unfolding Suc step .
        qed
      qed
      with none walk show ?thesis by simp
    next
      fix i
      assume i: "i < length xs"
        and some: "weightedWalk r (acc + Weight x) xs = Some (xs ! i)"
        and hit: "r < sint (acc + Weight x + totalWeight (take (Suc i) xs))"
        and before: "\<forall>j<i. \<not> r < sint (acc + Weight x + totalWeight (take (Suc j) xs))"
      have "\<forall>j<Suc i. \<not> r < sint (acc + totalWeight (take (Suc j) (x # xs)))"
      proof (intro allI impI)
        fix j assume j: "j < Suc i"
        show "\<not> r < sint (acc + totalWeight (take (Suc j) (x # xs)))"
        proof (cases j)
          case 0
          from False show ?thesis
            unfolding 0 zero .
        next
          case (Suc k)
          with j have "k < i"
            by simp
          with before have "\<not> r < sint (acc + Weight x + totalWeight (take (Suc k) xs))"
            by blast
          then show ?thesis
            unfolding Suc step .
        qed
      qed
      moreover have "Suc i < length (x # xs)"
        using i by simp
      moreover have "weightedWalk r acc (x # xs) = Some ((x # xs) ! Suc i)"
        using walk some by simp
      moreover have "r < sint (acc + totalWeight (take (Suc (Suc i)) (x # xs)))"
        using hit unfolding step .
      ultimately show ?thesis by blast
    qed
  qed
qed

lemma weightedSelect_positive:
  assumes "endpoints \<noteq> []" and "0 <s totalWeight endpoints"
  shows "\<exists>i<length endpoints.
           weightedSelect seed endpoints = Inr (URL (endpoints ! i), Some (endpoints ! i))
         \<and> int seed mod sint (totalWeight endpoints) < sint (totalWeight (take (Suc i) endpoints))
         \<and> (\<forall>j<i. \<not> int seed mod sint (totalWeight endpoints)
                      < sint (totalWeight (take (Suc j) endpoints)))"
proof -
  let ?r = "int seed mod sint (totalWeight endpoints)"
  from assms(2) have pos: "0 < sint (totalWeight endpoints)"
    by (simp add: word_sless_alt)
  then have nz: "totalWeight endpoints \<noteq> 0"
    by auto
  from weightedWalk_first [of ?r 0 endpoints]
  show ?thesis
  proof (elim disjE conjE exE)
    assume "\<forall>j<length endpoints. \<not> ?r < sint (0 + totalWeight (take (Suc j) endpoints))"
    moreover from assms(1) have "length endpoints - 1 < length endpoints"
      by (cases endpoints) auto
    ultimately have "\<not> ?r < sint (0 + totalWeight (take (Suc (length endpoints - 1)) endpoints))"
      by blast
    moreover from assms(1) have "Suc (length endpoints - 1) = length endpoints"
      by (cases endpoints) auto
    ultimately have "\<not> ?r < sint (totalWeight endpoints)"
      by simp
    with rand_Intn_range(3) [OF pos, of seed] show ?thesis
      by simp
  next
    fix i
    assume i: "i < length endpoints"
      and some: "weightedWalk ?r 0 endpoints = Some (endpoints ! i)"
      and hit: "?r < sint (0 + totalWeight (take (Suc i) endpoints))"
      and before: "\<forall>j<i. \<not> ?r < sint (0 + totalWeight (take (Suc j) endpoints))"
    from assms(1) nz some have "weightedSelect seed endpoints
                          = Inr (URL (endpoints ! i), Some (endpoints ! i))"
      unfolding weightedSelect_def rand_Intn_range(1) [OF pos]
      by simp
    with i hit before show ?thesis
      by auto
  qed
qed

lemma weightedSelect_zero:
  assumes "totalWeight endpoints = 0"
  shows "weightedSelect seed endpoints = randomSelect seed endpoints"
  using assms by (simp add: weightedSelect_def randomSelect_def)

lemma weightedSelect_negative:
  assumes "endpoints \<noteq> []" and "totalWeight endpoints <s 0"
  shows "weightedSelect seed endpoints = Inl IntnInvalidArgument"
proof -
  from assms(2) have neg: "sint (totalWeight endpoints) < 0"
    by (simp add: word_sless_alt)
  then have "totalWeight endpoints \<noteq> 0"
    by auto
  with assms(1) neg show ?thesis
    by (simp add: weightedSelect_def rand_Intn_def)
qed

text \<open>
  C5. For a candidate list that is not empty: when the total weight is zero,
  \<open>weightedSelect\<close> is \<open>randomSelect\<close>, which never fails and returns the candidate
  at the index drawn by \<open>rand.Intn(len)\<close>; when the total weight is positive and
  \<open>r\<close> is the draw of \<open>rand.Intn(totalWeight)\<close>, it returns the first candidate
  (in list order) at which the running sum of the weights exceeds \<open>r\<close>; and in both
  cases the result is a candidate of the list.
\<close>

theorem weightedSelect_walk:
  assumes "endpoints \<noteq> []"
  shows "(totalWeight endpoints = 0 \<longrightarrow>
            weightedSelect seed endpoints = randomSelect seed endpoints)
       \<and> randomSelect seed endpoints =
            Inr (URL (endpoints ! (seed mod length endpoints)),
                 Some (endpoints ! (seed mod length endpoints)))
       \<and> (0 <s totalWeight endpoints \<longrightarrow>
            (\<exists>i<length endpoints.
               weightedSelect seed endpoints = Inr (URL (endpoints ! i), Some (endpoints ! i))
             \<and> int seed mod sint (totalWeight endpoints)
                 < sint (totalWeight (take (Suc i) endpoints))
             \<and> (\<forall>j<i. \<not> int seed mod sint (totalWeight endpoints)
                          < sint (totalWeight (take (Suc j) endpoints)))))
       \<and> (0 \<le>s totalWeight endpoints \<longrightarrow>
            (\<exists>ep\<in>set endpoints. weightedSelect seed endpoints = Inr (URL ep, Some ep)))"
proof (intro conjI impI)
  assume "totalWeight endpoints = 0"
  then show "weightedSelect seed endpoints = randomSelect seed endpoints"
    by (rule weightedSelect_zero)
next
  show "randomSelect seed endpoints =
            Inr (URL (endpoints ! (seed mod length endpoints)),
                 Some (endpoints ! (seed mod length endpoints)))"
    by (rule randomSelect_nonempty [OF assms])
next
  assume "0 <s totalWeight endpoints"
  from weightedSelect_positive [OF assms this]
  show "\<exists>i<length endpoints.
               weightedSelect seed endpoints = Inr (URL (endpoints ! i), Some (endpoints ! i))
             \<and> int seed mod sint (totalWeight endpoints)
                 < sint (totalWeight (take (Suc i) endpoints))
             \<and> (\<forall>j<i. \<not> int seed mod sint (totalWeight endpoints)
                          < sint (totalWeight (take (Suc j) endpoints)))" .
next
  assume nonneg: "0 \<le>s totalWeight endpoints"
  show "\<exists>ep\<in>set endpoints. weightedSelect seed endpoints = Inr (URL ep, Some ep)"
  proof (cases "totalWeight endpoints = 0")
    case True
    from assms have "seed mod length endpoints < length endpoints"
      by simp
    then have "endpoints ! (seed mod length endpoints) \<in> set endpoints"
      by (rule nth_mem)
    with weightedSelect_zero [OF True, of seed] randomSelect_nonempty [OF assms, of seed]
    show ?thesis by auto
  next
    case False
    with nonneg have "0 <s totalWeight endpoints"
      by (simp add: signed.less_le)
    from weightedSelect_positive [OF assms this, of seed]
    obtain i where "i < length endpoints"
      "weightedSelect seed endpoints = Inr (URL (endpoints ! i), Some (endpoints ! i))"
      by blast
    then show ?thesis
      using nth_mem by auto
  qed
qed

theorem weightedSelect_walk_witness:
  "[endpointP, endpointQ, endpointR] \<noteq> []
   \<and> 0 <s totalWeight [endpointP, endpointQ, endpointR]
   \<and> (\<exists>ep\<in>set [endpointP, endpointQ, endpointR].
         weightedSelect 4 [endpointP, endpointQ, endpointR] = Inr (URL ep, Some ep))
   \<and> weightedSelect 4 [endpointP, endpointQ, endpointR] = Inr (URL endpointR, Some endpointR)
   \<and> totalWeight [endpointA, endpointB] = 0
   \<and> weightedSelect 4 [endpointA, endpointB] = randomSelect 4 [endpointA, endpointB]"
proof -
  have ne: "[endpointP, endpointQ, endpointR] \<noteq> []" "[endpointA, endpointB] \<noteq> []"
    by simp_all
  have tw: "totalWeight [endpointP, endpointQ, endpointR] = 6"
    by (simp add: totalWeight_def example_priorities)
  have zero: "totalWeight [endpointA, endpointB] = 0"
    by (simp add: totalWeight_def endpointA_def endpointB_def)
  have pos: "0 <s totalWeight [endpointP, endpointQ, endpointR]"
    unfolding tw by (simp add: word_sless_alt)
  then have nonneg: "0 \<le>s totalWeight [endpointP, endpointQ, endpointR]"
    by (simp add: signed.less_le)
  from weightedSelect_walk [OF ne(1), of 4] nonneg
  have "\<exists>ep\<in>set [endpointP, endpointQ, endpointR].
         weightedSelect 4 [endpointP, endpointQ, endpointR] = Inr (URL ep, Some ep)"
    by blast
  moreover from weightedSelect_walk [OF ne(2), of 4] zero
  have "weightedSelect 4 [endpointA, endpointB] = randomSelect 4 [endpointA, endpointB]"
    by blast
  moreover have "weightedSelect 4 [endpointP, endpointQ, endpointR]
                   = Inr (URL endpointR, Some endpointR)"
    by (simp add: weightedSelect_def totalWeight_def example_priorities rand_Intn_def)
  ultimately show ?thesis
    using ne pos zero by simp
qed

lemma selectEndpoint_round_robin:
  assumes "strategy \<noteq> LoadBalanceRandom" and "strategy \<noteq> LoadBalanceWeighted"
  shows "selectEndpoint s seed (config\<lparr>LoadBalanceStrategy := strategy\<rparr>) =
         selectEndpoint s seed (config\<lparr>LoadBalanceStrategy := LoadBalanceRoundRobin\<rparr>)"
  using assms
  by (simp add: selectEndpoint_def GetActiveEndpoints_def Let_def LoadBalanceRoundRobin_def
      LoadBalanceRandom_def LoadBalanceWeighted_def)

lemma selectEndpointCalls_round_robin:
  assumes "strategy \<noteq> LoadBalanceRandom" and "strategy \<noteq> LoadBalanceWeighted"
  shows "selectEndpointCalls s seeds (config\<lparr>LoadBalanceStrategy := strategy\<rparr>) =
         selectEndpointCalls s seeds (config\<lparr>LoadBalanceStrategy := LoadBalanceRoundRobin\<rparr>)"
proof (induction seeds arbitrary: s)
  case Nil
  show ?case by simp
next
  case (Cons seed seeds)
  show ?case
    by (simp add: selectEndpoint_round_robin [OF assms] Cons.IH split: sum.splits prod.splits)
qed

lemma strategies:
  "''bogus'' \<noteq> LoadBalanceRandom" "''bogus'' \<noteq> LoadBalanceWeighted"
  "[] \<noteq> LoadBalanceRandom" "[] \<noteq> LoadBalanceWeighted"
  "LoadBalanceLeastConn \<noteq> LoadBalanceRandom" "LoadBalanceLeastConn \<noteq> LoadBalanceWeighted"
  by (simp_all add: LoadBalanceRandom_def LoadBalanceWeighted_def LoadBalanceLeastConn_def)

text \<open>
  C6. With any strategy string other than "random" and "weighted" (an unknown string
  such as "bogus", the unset empty string, or "least-conn"), \<open>selectEndpoint\<close>
  returns what it returns with "round-robin", result and registry state alike, for
  one call and for any run of repeated calls.
\<close>

theorem selectEndpoint_defaults_to_round_robin:
  assumes "strategy \<noteq> LoadBalanceRandom" and "strategy \<noteq> LoadBalanceWeighted"
  shows "selectEndpoint s seed (config\<lparr>LoadBalanceStrategy := strategy\<rparr>) =
         selectEndpoint s seed (config\<lparr>LoadBalanceStrategy := LoadBalanceRoundRobin\<rparr>)
       \<and> selectEndpointCalls s seeds (config\<lparr>LoadBalanceStrategy := strategy\<rparr>) =
         selectEndpointCalls s seeds (config\<lparr>LoadBalanceStrategy := LoadBalanceRoundRobin\<rparr>)"
  using selectEndpoint_round_robin [OF assms] selectEndpointCalls_round_robin [OF assms]
  by simp

theorem selectEndpoint_defaults_to_round_robin_witness:
  "''bogus'' \<noteq> LoadBalanceRandom \<and> ''bogus'' \<noteq> LoadBalanceWeighted
   \<and> selectEndpointCalls NewServiceRegistry [0, 1, 2, 3]
        (priorityConfig\<lparr>LoadBalanceStrategy := ''bogus''\<rparr>)
     = selectEndpointCalls NewServiceRegistry [0, 1, 2, 3]
        (priorityConfig\<lparr>LoadBalanceStrategy := LoadBalanceRoundRobin\<rparr>)
   \<and> selectEndpoint NewServiceRegistry 0 (priorityConfig\<lparr>LoadBalanceStrategy := []\<rparr>)
     = selectEndpoint NewServiceRegistry 0
         (priorityConfig\<lparr>LoadBalanceStrategy := LoadBalanceRoundRobin\<rparr>)
   \<and> selectEndpoint NewServiceRegistry 0
         (priorityConfig\<lparr>LoadBalanceStrategy := LoadBalanceLeastConn\<rparr>)
     = selectEndpoint NewServiceRegistry 0
         (priorityConfig\<lparr>LoadBalanceStrategy := LoadBalanceRoundRobin\<rparr>)"
  using selectEndpoint_defaults_to_round_robin [OF strategies(1,2), of NewServiceRegistry 0
      priorityConfig "[0, 1, 2, 3]"]
    selectEndpoint_defaults_to_round_robin [OF strategies(3,4), of NewServiceRegistry 0
      priorityConfig "[]"]
    selectEndpoint_defaults_to_round_robin [OF strategies(5,6), of NewServiceRegistry 0
      priorityConfig "[]"]
    strategies(1,2)
  by blast

end
